theory Spec2Isabelle
  imports Complex_Main "HOL-Library.AList"
begin

section \<open>The M/M/1 queue simulation engine (mm1_queue_simulation.py)\<close>

text \<open>
  The engine \<open>simulate_mm1_queue\<close> is embedded as written. Python floats are idealised
  as the reals of HOL, so rounding is not part of the model; \<open>float('inf')\<close>, which the
  source uses for "no departure pending", is a constructor of its own. Exceptions are
  values of a sum type. The \<open>while\<close> loop is a partial function into \<open>option\<close>:
  \<open>None\<close> is a run that never leaves the loop.
\<close>

subsection \<open>Errors and extended times\<close>

datatype error = ZeroDivisionError | ValueError

text \<open>The value of \<open>next_departure_time\<close>: a float or \<open>float('inf')\<close>.\<close>

datatype etime = Finite real | Infinity

text \<open>\<open>next_departure_time > simulation_time\<close> (line 100).\<close>

fun etime_gt :: "etime \<Rightarrow> real \<Rightarrow> bool" where
  "etime_gt Infinity t = True"
| "etime_gt (Finite d) t = (d > t)"

subsection \<open>The sample source\<close>

text \<open>
  numpy's generator is outside the repository. What the engine sees of it is a sequence
  of standard exponential variates, \<open>draws\<close>, read at consecutive positions;
  \<open>np.random.exponential(scale)\<close> rejects a negative scale with \<open>ValueError\<close> and
  otherwise returns the scale times the next variate. The argument \<open>1.0/rate\<close> is
  evaluated first and raises \<open>ZeroDivisionError\<close> for a zero rate.
\<close>

definition exponential :: "(nat \<Rightarrow> real) \<Rightarrow> real \<Rightarrow> nat \<Rightarrow> error + real" where
  "exponential draws rate i =
     (if rate = 0 then Inl ZeroDivisionError
      else if 1 / rate < 0 then Inl ValueError
      else Inr ((1 / rate) * draws i))"

subsection \<open>The simulation state\<close>

text \<open>
  The local variables of \<open>simulate_mm1_queue\<close> (lines 11 to 24), and the position
  \<open>rng_pos\<close> of the generator in its sequence. The dictionary \<open>state_time\<close> is an
  association list in insertion order, as a Python dict is.
\<close>

record sim_state =
  current_time :: real
  server_busy :: bool
  server_start_time :: real
  next_departure_time :: etime
  queue :: "real list"
  customer_stats :: "(real \<times> real \<times> real) list"
  last_event_time :: real
  state_time :: "(int \<times> real) list"
  current_state :: int
  next_arrival_time :: real
  rng_pos :: nat

text \<open>\<open>d.get(k, dflt)\<close>.\<close>

definition dict_get :: "(int \<times> real) list \<Rightarrow> int \<Rightarrow> real \<Rightarrow> real" where
  "dict_get d k dflt = (case map_of d k of None \<Rightarrow> dflt | Some v \<Rightarrow> v)"

text \<open>\<open>state_time[n] = state_time.get(n, 0) + dt\<close> (lines 33, 58 and 78).\<close>

definition add_state_time :: "(int \<times> real) list \<Rightarrow> int \<Rightarrow> real \<Rightarrow> (int \<times> real) list" where
  "add_state_time st n dt = AList.update n (dict_get st n 0 + dt) st"

text \<open>Lines 11 to 24: the initial state, with the first arrival drawn.\<close>

definition initial_state :: "(nat \<Rightarrow> real) \<Rightarrow> real \<Rightarrow> error + sim_state" where
  "initial_state draws arrival_rate =
     (case exponential draws arrival_rate 0 of
        Inl e \<Rightarrow> Inl e
      | Inr ia \<Rightarrow> Inr \<lparr> current_time = 0, server_busy = False, server_start_time = 0,
                      next_departure_time = Infinity, queue = [], customer_stats = [],
                      last_event_time = 0, state_time = [(0, 0)], current_state = 0,
                      next_arrival_time = ia, rng_pos = 1 \<rparr>)"

subsection \<open>The two transitions\<close>

text \<open>Lines 30 to 52: an arrival.\<close>

definition arrival :: "real \<Rightarrow> real \<Rightarrow> (nat \<Rightarrow> real) \<Rightarrow> sim_state \<Rightarrow> error + sim_state" where
  "arrival arrival_rate service_rate draws s =
     (let t = next_arrival_time s;
          st = add_state_time (state_time s) (current_state s) (t - last_event_time s)
      in case exponential draws arrival_rate (rng_pos s) of
           Inl e \<Rightarrow> Inl e
         | Inr ia \<Rightarrow>
             (let s1 = s\<lparr> state_time := st, last_event_time := t, current_time := t,
                          next_arrival_time := t + ia, rng_pos := rng_pos s + 1 \<rparr>
              in if \<not> server_busy s then
                   (case exponential draws service_rate (rng_pos s + 1) of
                      Inl e \<Rightarrow> Inl e
                    | Inr service_time \<Rightarrow>
                        Inr (s1\<lparr> server_busy := True, server_start_time := t,
                                 next_departure_time := Finite (t + service_time),
                                 customer_stats := customer_stats s @ [(t, t, t + service_time)],
                                 rng_pos := rng_pos s + 2,
                                 current_state := current_state s + 1 \<rparr>))
                 else Inr (s1\<lparr> queue := queue s @ [t],
                               current_state := current_state s + 1 \<rparr>)))"

text \<open>Lines 55 to 75: a departure at the pending departure time \<open>d\<close>.\<close>

definition departure :: "real \<Rightarrow> (nat \<Rightarrow> real) \<Rightarrow> real \<Rightarrow> sim_state \<Rightarrow> error + sim_state" where
  "departure service_rate draws d s =
     (let st = add_state_time (state_time s) (current_state s) (d - last_event_time s);
          s1 = s\<lparr> state_time := st, last_event_time := d, current_time := d,
                   current_state := current_state s - 1 \<rparr>
      in case queue s of
           arrival_time # rest \<Rightarrow>
             (case exponential draws service_rate (rng_pos s) of
                Inl e \<Rightarrow> Inl e
              | Inr service_time \<Rightarrow>
                  Inr (s1\<lparr> queue := rest,
                           next_departure_time := Finite (d + service_time),
                           customer_stats := customer_stats s @ [(arrival_time, d, d + service_time)],
                           server_start_time := d,
                           rng_pos := rng_pos s + 1 \<rparr>))
         | [] \<Rightarrow> Inr (s1\<lparr> server_busy := False, next_departure_time := Infinity \<rparr>))"

text \<open>
  Line 29: \<open>if next_arrival_time <= next_departure_time\<close>. The arrival time is a finite
  float, so the comparison with \<open>float('inf')\<close> is true and the \<open>else\<close> branch is
  entered with a finite departure time only.
\<close>

definition loop_body :: "real \<Rightarrow> real \<Rightarrow> (nat \<Rightarrow> real) \<Rightarrow> sim_state \<Rightarrow> error + sim_state" where
  "loop_body arrival_rate service_rate draws s =
     (case next_departure_time s of
        Infinity \<Rightarrow> arrival arrival_rate service_rate draws s
      | Finite d \<Rightarrow>
          if next_arrival_time s \<le> d then arrival arrival_rate service_rate draws s
          else departure service_rate draws d s)"

subsection \<open>The event loop\<close>

text \<open>Line 27: \<open>while current_time < simulation_time\<close>.\<close>

partial_function (option) event_loop ::
  "real \<Rightarrow> real \<Rightarrow> real \<Rightarrow> (nat \<Rightarrow> real) \<Rightarrow> sim_state \<Rightarrow> (error + sim_state) option" where
  "event_loop arrival_rate service_rate simulation_time draws s =
     (if current_time s < simulation_time then
        (case loop_body arrival_rate service_rate draws s of
           Inl e \<Rightarrow> Some (Inl e)
         | Inr s' \<Rightarrow> event_loop arrival_rate service_rate simulation_time draws s')
      else Some (Inr s))"

declare event_loop.simps [code]

text \<open>The states at the head of the loop, in the order the run goes through them.\<close>

inductive reachable :: "real \<Rightarrow> real \<Rightarrow> real \<Rightarrow> (nat \<Rightarrow> real) \<Rightarrow> sim_state \<Rightarrow> bool"
  for arrival_rate service_rate simulation_time draws where
  start: "initial_state draws arrival_rate = Inr s \<Longrightarrow>
          reachable arrival_rate service_rate simulation_time draws s"
| event: "reachable arrival_rate service_rate simulation_time draws s \<Longrightarrow>
          current_time s < simulation_time \<Longrightarrow>
          loop_body arrival_rate service_rate draws s = Inr s' \<Longrightarrow>
          reachable arrival_rate service_rate simulation_time draws s'"

subsection \<open>The statistics\<close>

record result =
  total_customers :: nat
  completed_customers :: nat
  total_system_time :: real
  total_queue_time :: real
  server_busy_time :: real
  average_system_time :: real
  average_queue_time :: real
  server_utilization :: real
  average_system_length :: real
  average_queue_length :: real
  state_probabilities :: "(int \<times> real) list"

text \<open>Line 78: the last update of the ledger, up to the horizon.\<close>

definition final_state_time :: "real \<Rightarrow> sim_state \<Rightarrow> (int \<times> real) list" where
  "final_state_time simulation_time s =
     add_state_time (state_time s) (current_state s) (simulation_time - last_event_time s)"

text \<open>The records whose departure is within the horizon (lines 84 and 92).\<close>

definition completed :: "real \<Rightarrow> (real \<times> real \<times> real) list \<Rightarrow> (real \<times> real \<times> real) list" where
  "completed simulation_time stats =
     filter (\<lambda>(arrival_time, service_start_time, departure_time).
               departure_time \<le> simulation_time) stats"

text \<open>\<open>np.mean(xs) if xs else 0\<close>.\<close>

definition mean_or_zero :: "real list \<Rightarrow> real" where
  "mean_or_zero xs = (if xs = [] then 0 else sum_list xs / real (length xs))"

text \<open>Lines 89 to 101: the busy time of the server.\<close>

definition busy_time :: "real \<Rightarrow> sim_state \<Rightarrow> real" where
  "busy_time simulation_time s =
     sum_list (map (\<lambda>(arrival_time, service_start_time, departure_time).
                      departure_time - service_start_time)
                 (completed simulation_time (customer_stats s)))
     + (if server_busy s \<and> etime_gt (next_departure_time s) simulation_time
        then simulation_time - server_start_time s else 0)"

text \<open>
  Lines 78 to 128. The first division by \<open>simulation_time\<close> is the one of line 106; it
  raises for a zero horizon.
\<close>

definition statistics :: "real \<Rightarrow> sim_state \<Rightarrow> error + result" where
  "statistics simulation_time s =
     (let st = final_state_time simulation_time s;
          done = completed simulation_time (customer_stats s);
          system_times = map (\<lambda>(arrival_time, service_start_time, departure_time).
                                departure_time - arrival_time) done;
          queue_times = map (\<lambda>(arrival_time, service_start_time, departure_time).
                               service_start_time - arrival_time) done
      in if simulation_time = 0 then Inl ZeroDivisionError
         else Inr \<lparr> total_customers = length (customer_stats s),
                    completed_customers = length done,
                    total_system_time = sum_list system_times,
                    total_queue_time = sum_list queue_times,
                    server_busy_time = busy_time simulation_time s,
                    average_system_time = mean_or_zero system_times,
                    average_queue_time = mean_or_zero queue_times,
                    server_utilization = busy_time simulation_time s / simulation_time,
                    average_system_length =
                      sum_list (map (\<lambda>(n, t). real_of_int n * t) st) / simulation_time,
                    average_queue_length =
                      sum_list (map (\<lambda>(n, t). real_of_int (max 0 (n - 1)) * t) st)
                        / simulation_time,
                    state_probabilities = map (\<lambda>(n, t). (n, t / simulation_time)) st \<rparr>)"

subsection \<open>The engine\<close>

text \<open>
  Lines 5 to 128. \<open>np.random.seed(seed)\<close> restarts the process-wide generator on the
  sequence \<open>seeded seed\<close>; without a seed the run reads on in the sequence
  \<open>ambient\<close> the generator was on before the call. \<open>final_state\<close> is the state
  the loop is left in (lines 11 to 75).
\<close>

definition final_state ::
  "(nat \<Rightarrow> real) \<Rightarrow> real \<Rightarrow> real \<Rightarrow> real \<Rightarrow> (error + sim_state) option" where
  "final_state draws arrival_rate service_rate simulation_time =
     (case initial_state draws arrival_rate of
        Inl e \<Rightarrow> Some (Inl e)
      | Inr s0 \<Rightarrow> event_loop arrival_rate service_rate simulation_time draws s0)"

definition simulate_mm1_queue ::
  "(int \<Rightarrow> nat \<Rightarrow> real) \<Rightarrow> (nat \<Rightarrow> real) \<Rightarrow> real \<Rightarrow> real \<Rightarrow> real \<Rightarrow> int option
     \<Rightarrow> (error + result) option" where
  "simulate_mm1_queue seeded ambient arrival_rate service_rate simulation_time seed =
     (let draws = (case seed of Some k \<Rightarrow> seeded k | None \<Rightarrow> ambient)
      in case final_state draws arrival_rate service_rate simulation_time of
           None \<Rightarrow> None
         | Some (Inl e) \<Rightarrow> Some (Inl e)
         | Some (Inr s) \<Rightarrow> Some (statistics simulation_time s))"

subsection \<open>Invariants of the event loop\<close>

text \<open>The server is idle exactly when no departure is pending, an idle server has an empty
  line, and the population is the line plus the customer in service.\<close>

definition server_inv :: "sim_state \<Rightarrow> bool" where
  "server_inv s \<longleftrightarrow>
     (next_departure_time s = Infinity \<longleftrightarrow> \<not> server_busy s) \<and>
     (\<not> server_busy s \<longrightarrow> queue s = []) \<and>
     current_state s = int (length (queue s)) + (if server_busy s then 1 else 0)"

text \<open>The condition of line 29, \<open>next_arrival_time <= next_departure_time\<close>.\<close>

definition arrival_is_next :: "sim_state \<Rightarrow> bool" where
  "arrival_is_next s =
     (case next_departure_time s of Infinity \<Rightarrow> True | Finite d \<Rightarrow> next_arrival_time s \<le> d)"

text \<open>With non-negative variates the clock never runs ahead of a pending event, and every
  recorded customer arrives, starts service and departs in that order.\<close>

definition time_inv :: "sim_state \<Rightarrow> bool" where
  "time_inv s \<longleftrightarrow>
     current_time s \<le> next_arrival_time s \<and>
     (\<forall>d. next_departure_time s = Finite d \<longrightarrow> current_time s \<le> d) \<and>
     (\<forall>a \<in> set (queue s). a \<le> current_time s) \<and>
     (\<forall>(a, b, c) \<in> set (customer_stats s). a \<le> b \<and> b \<le> c)"

text \<open>The third component of a customer record.\<close>

definition departure_of :: "real \<times> real \<times> real \<Rightarrow> real" where
  "departure_of r = snd (snd r)"

text \<open>The records of the customers who have left: all but the one in service.\<close>

definition departed :: "sim_state \<Rightarrow> (real \<times> real \<times> real) list" where
  "departed s = (if server_busy s then butlast (customer_stats s) else customer_stats s)"

text \<open>The record of the customer in service is the last one and carries the pending
  departure time; of the customers who left, only the latest can have left at or after
  the horizon, and then the clock stands at that departure.\<close>

definition record_inv :: "real \<Rightarrow> sim_state \<Rightarrow> bool" where
  "record_inv T s \<longleftrightarrow>
     (server_busy s \<longrightarrow> customer_stats s \<noteq> [] \<and>
        next_departure_time s = Finite (departure_of (last (customer_stats s)))) \<and>
     (\<forall>r \<in> set (departed s). departure_of r < T \<or> departure_of r = current_time s) \<and>
     (\<forall>r \<in> set (butlast (departed s)). departure_of r < T)"

text \<open>The first summand of the busy time (lines 91 to 97), for any list of records.\<close>

definition served_time :: "real \<Rightarrow> (real \<times> real \<times> real) list \<Rightarrow> real" where
  "served_time simulation_time stats =
     sum_list (map (\<lambda>(arrival_time, service_start_time, departure_time).
                      departure_time - service_start_time)
                 (completed simulation_time stats))"

text \<open>
  The service time of the customers who left is at most the horizon and at most the
  instant the server was last taken or freed; the record of the customer in service
  starts at \<open>server_start_time\<close> and ends at the pending departure.
\<close>

definition busy_inv :: "real \<Rightarrow> sim_state \<Rightarrow> bool" where
  "busy_inv T s \<longleftrightarrow>
     0 \<le> served_time T (departed s) \<and>
     served_time T (departed s) \<le> T \<and>
     served_time T (departed s)
       \<le> (if server_busy s then server_start_time s else current_time s) \<and>
     (server_busy s \<longrightarrow>
        customer_stats s \<noteq> [] \<and>
        (\<exists>a d. last (customer_stats s) = (a, server_start_time s, d) \<and>
               next_departure_time s = Finite d \<and> server_start_time s \<le> d))"

subsection \<open>A sample run\<close>

text \<open>
  Every variate is 1, both rates are 1 and the horizon is 5/2: arrivals at 1, 2 and 3,
  departures at 2 and 3. The states below are the ones at the head of the loop:
  the initial one, those after the first, second and third event, and the one at the exit.
\<close>

definition sample_draws :: "nat \<Rightarrow> real" where
  "sample_draws i = 1"

definition sample_state0 :: sim_state where
  "sample_state0 =
     \<lparr> current_time = 0, server_busy = False, server_start_time = 0,
       next_departure_time = Infinity, queue = [], customer_stats = [],
       last_event_time = 0, state_time = [(0, 0)], current_state = 0,
       next_arrival_time = 1, rng_pos = 1 \<rparr>"

definition sample_state1 :: sim_state where
  "sample_state1 =
     \<lparr> current_time = 1, server_busy = True, server_start_time = 1,
       next_departure_time = Finite 2, queue = [], customer_stats = [(1, 1, 2)],
       last_event_time = 1, state_time = [(0, 1)], current_state = 1,
       next_arrival_time = 2, rng_pos = 3 \<rparr>"

definition sample_state2 :: sim_state where
  "sample_state2 =
     \<lparr> current_time = 2, server_busy = True, server_start_time = 1,
       next_departure_time = Finite 2, queue = [2], customer_stats = [(1, 1, 2)],
       last_event_time = 2, state_time = [(0, 1), (1, 1)], current_state = 2,
       next_arrival_time = 3, rng_pos = 4 \<rparr>"

definition sample_state3 :: sim_state where
  "sample_state3 =
     \<lparr> current_time = 2, server_busy = True, server_start_time = 2,
       next_departure_time = Finite 3, queue = [], customer_stats = [(1, 1, 2), (2, 2, 3)],
       last_event_time = 2, state_time = [(0, 1), (1, 1), (2, 0)], current_state = 1,
       next_arrival_time = 3, rng_pos = 5 \<rparr>"

definition sample_exit :: sim_state where
  "sample_exit =
     \<lparr> current_time = 3, server_busy = True, server_start_time = 2,
       next_departure_time = Finite 3, queue = [3], customer_stats = [(1, 1, 2), (2, 2, 3)],
       last_event_time = 3, state_time = [(0, 1), (1, 2), (2, 0)], current_state = 2,
       next_arrival_time = 4, rng_pos = 6 \<rparr>"

definition sample_result :: result where
  "sample_result =
     \<lparr> total_customers = 2, completed_customers = 1, total_system_time = 1,
       total_queue_time = 0, server_busy_time = 3 / 2, average_system_time = 1,
       average_queue_time = 0, server_utilization = 3 / 5, average_system_length = 2 / 5,
       average_queue_length = - (1 / 5),
       state_probabilities = [(0, 2 / 5), (1, 4 / 5), (2, - (1 / 5))] \<rparr>"

subsection \<open>Further runs\<close>

text \<open>
  A run whose first arrival comes after the horizon: rates 1, horizon 2/5, and the variates
  0.4692680899768591, 3.0101214309175406, 1.3167456935454493, which are the first standard
  exponential variates of numpy's legacy generator under seed 42. Only the first matters:
  it exceeds the horizon.
\<close>

definition late_draws :: "nat \<Rightarrow> real" where
  "late_draws i =
     (if i = 0 then 4692680899768591 / 10000000000000000
      else if i = 1 then 30101214309175406 / 10000000000000000
      else 13167456935454493 / 10000000000000000)"

definition late_result :: result where
  "late_result =
     \<lparr> total_customers = 1, completed_customers = 0, total_system_time = 0,
       total_queue_time = 0,
       server_busy_time = - (692680899768591 / 10000000000000000),
       average_system_time = 0, average_queue_time = 0,
       server_utilization = - (692680899768591 / 4000000000000000),
       average_system_length = - (692680899768591 / 4000000000000000),
       average_queue_length = 0,
       state_probabilities =
         [(0, 4692680899768591 / 4000000000000000),
          (1, - (692680899768591 / 4000000000000000))] \<rparr>"

text \<open>
  A run that leaves the loop on a departure beyond the horizon with a customer waiting:
  arrivals at 1 and 2, the first service ends at 3, the horizon is 5/2.
\<close>

definition crowded_draws :: "nat \<Rightarrow> real" where
  "crowded_draws i = (if i = 2 then 2 else if i = 3 then 5 else 1)"



subsection \<open>A bound on the events still to come\<close>

text \<open>
  When successive arrivals are at least \<open>gap\<close> apart, twice the number of arrivals
  that still fit before the horizon, plus the population, decreases with every event
  processed before the last one.
\<close>

definition remaining_events :: "real \<Rightarrow> real \<Rightarrow> sim_state \<Rightarrow> nat" where
  "remaining_events gap simulation_time s =
     2 * nat \<lceil>(simulation_time - next_arrival_time s) / gap\<rceil> + nat (current_state s)"

section \<open>Properties\<close>

subsection \<open>The loop and its reachable states\<close>



lemma event_loop_exit:
  assumes "event_loop arrival_rate service_rate simulation_time draws s = Some y"
  shows "\<forall>s'. reachable arrival_rate service_rate simulation_time draws s \<longrightarrow> y = Inr s' \<longrightarrow>
   reachable arrival_rate service_rate simulation_time draws s' \<and>
   \<not> current_time s' < simulation_time"
proof (rule event_loop.raw_induct [where P = "\<lambda>a b c d s y. \<forall>s'. reachable a b c d s \<longrightarrow> y = Inr s' \<longrightarrow>
   reachable a b c d s' \<and> \<not> current_time s' < c", OF _ assms], intro allI impI)
  fix loop :: "real \<Rightarrow> real \<Rightarrow> real \<Rightarrow> (nat \<Rightarrow> real) \<Rightarrow> sim_state \<Rightarrow> (error + sim_state) option"
  fix a b c d s y s'
  assume IH: "\<And>a b c d s y. loop a b c d s = Some y \<Longrightarrow> \<forall>s'. reachable a b c d s \<longrightarrow> y = Inr s' \<longrightarrow>
   reachable a b c d s' \<and> \<not> current_time s' < c"
  assume body: "(if current_time s < c
      then case loop_body a b d s of
           Inl e \<Rightarrow> Some (Inl e)
           | Inr s' \<Rightarrow> loop a b c d s'
      else Some (Inr s)) = Some y"
  assume r: "reachable a b c d s" and y: "y = Inr s'"
  show "reachable a b c d s' \<and> \<not> current_time s' < c"
  proof (cases "current_time s < c")
    case True
    with body y obtain s1 where b: "loop_body a b d s = Inr s1"
      and l: "loop a b c d s1 = Some y"
      by (cases "loop_body a b d s") simp_all
    from r True b have "reachable a b c d s1"
      by (rule reachable.event)
    with IH [OF l] y show ?thesis by simp
  next
    case False
    with body y have "s' = s" by simp
    with False r show ?thesis by simp
  qed
qed

lemma event_loop_reachable:
  assumes "event_loop arrival_rate service_rate simulation_time draws s = Some (Inr s')"
    and "reachable arrival_rate service_rate simulation_time draws s"
  shows "reachable arrival_rate service_rate simulation_time draws s' \<and>
         \<not> current_time s' < simulation_time"
  using assms event_loop_exit by blast

lemma final_state_reachable:
  assumes "final_state draws arrival_rate service_rate simulation_time = Some (Inr s)"
  shows "reachable arrival_rate service_rate simulation_time draws s \<and>
         \<not> current_time s < simulation_time"
proof -
  from assms obtain s0 where i: "initial_state draws arrival_rate = Inr s0"
    and l: "event_loop arrival_rate service_rate simulation_time draws s0 = Some (Inr s)"
    by (auto simp: final_state_def split: sum.splits)
  from i have "reachable arrival_rate service_rate simulation_time draws s0"
    by (rule reachable.start)
  with l show ?thesis by (rule event_loop_reachable)
qed

lemma initial_server_inv: "initial_state draws arrival_rate = Inr s \<Longrightarrow> server_inv s"
  by (auto simp: initial_state_def server_inv_def split: sum.splits)

lemma arrival_server_inv:
  "server_inv s \<Longrightarrow> arrival arrival_rate service_rate draws s = Inr s' \<Longrightarrow> server_inv s'"
  by (auto simp: arrival_def server_inv_def Let_def split: sum.splits if_splits)

lemma departure_server_inv:
  "server_inv s \<Longrightarrow> next_departure_time s = Finite d \<Longrightarrow>
   departure service_rate draws d s = Inr s' \<Longrightarrow> server_inv s'"
  by (auto simp: departure_def server_inv_def Let_def split: sum.splits list.splits if_splits)

lemma loop_body_server_inv:
  "server_inv s \<Longrightarrow> loop_body arrival_rate service_rate draws s = Inr s' \<Longrightarrow> server_inv s'"
  by (auto simp: loop_body_def split: etime.splits if_splits
      intro: arrival_server_inv departure_server_inv)

lemma reachable_server_inv:
  "reachable arrival_rate service_rate simulation_time draws s \<Longrightarrow> server_inv s"
  by (induction rule: reachable.induct) (auto intro: initial_server_inv loop_body_server_inv)

lemma loop_body_cases:
  "loop_body arrival_rate service_rate draws s =
     (if arrival_is_next s then arrival arrival_rate service_rate draws s
      else case next_departure_time s of
             Finite d \<Rightarrow> departure service_rate draws d s
           | Infinity \<Rightarrow> arrival arrival_rate service_rate draws s)"
  by (simp add: loop_body_def arrival_is_next_def split: etime.splits)







lemma simulate_final_state:
  assumes "simulate_mm1_queue seeded ambient arrival_rate service_rate simulation_time seed
             = Some (Inr r)"
  obtains s where
    "final_state (case seed of Some k \<Rightarrow> seeded k | None \<Rightarrow> ambient)
       arrival_rate service_rate simulation_time = Some (Inr s)"
    and "statistics simulation_time s = Inr r"
  using assms
  by (auto simp: simulate_mm1_queue_def Let_def split: option.splits sum.splits)


subsection \<open>The sample run\<close>

lemmas step_defs = exponential_def loop_body_def arrival_def departure_def
  add_state_time_def dict_get_def Let_def

lemmas sample_states = sample_draws_def sample_state0_def sample_state1_def sample_state2_def
  sample_state3_def sample_exit_def

lemma sample_initial: "initial_state sample_draws 1 = Inr sample_state0"
  by (simp add: initial_state_def exponential_def sample_states)

lemma sample_step1: "loop_body 1 1 sample_draws sample_state0 = Inr sample_state1"
  by (simp add: step_defs sample_states)

lemma sample_step2: "loop_body 1 1 sample_draws sample_state1 = Inr sample_state2"
  by (simp add: step_defs sample_states)

lemma sample_step3: "loop_body 1 1 sample_draws sample_state2 = Inr sample_state3"
  by (simp add: step_defs sample_states)

lemma sample_step4: "loop_body 1 1 sample_draws sample_state3 = Inr sample_exit"
  by (simp add: step_defs sample_states)

lemma sample_reachable0: "reachable 1 1 (5 / 2) sample_draws sample_state0"
  by (rule reachable.start) (rule sample_initial)

lemma sample_reachable1: "reachable 1 1 (5 / 2) sample_draws sample_state1"
  by (rule reachable.event [OF sample_reachable0 _ sample_step1]) (simp add: sample_states)

lemma sample_reachable2: "reachable 1 1 (5 / 2) sample_draws sample_state2"
  by (rule reachable.event [OF sample_reachable1 _ sample_step2]) (simp add: sample_states)

lemma sample_reachable3: "reachable 1 1 (5 / 2) sample_draws sample_state3"
  by (rule reachable.event [OF sample_reachable2 _ sample_step3]) (simp add: sample_states)

lemma sample_final_state: "final_state sample_draws 1 1 (5 / 2) = Some (Inr sample_exit)"
proof -
  have "event_loop 1 1 (5 / 2) sample_draws sample_exit = Some (Inr sample_exit)"
    by (subst event_loop.simps) (simp add: sample_exit_def)
  then have "event_loop 1 1 (5 / 2) sample_draws sample_state3 = Some (Inr sample_exit)"
    by (subst event_loop.simps) (simp add: sample_step4, simp add: sample_state3_def)
  then have "event_loop 1 1 (5 / 2) sample_draws sample_state2 = Some (Inr sample_exit)"
    by (subst event_loop.simps) (simp add: sample_step3, simp add: sample_state2_def)
  then have "event_loop 1 1 (5 / 2) sample_draws sample_state1 = Some (Inr sample_exit)"
    by (subst event_loop.simps) (simp add: sample_step2, simp add: sample_state1_def)
  then have "event_loop 1 1 (5 / 2) sample_draws sample_state0 = Some (Inr sample_exit)"
    by (subst event_loop.simps) (simp add: sample_step1, simp add: sample_state0_def)
  then show ?thesis by (simp add: final_state_def sample_initial)
qed

lemma sample_statistics: "statistics (5 / 2) sample_exit = Inr sample_result"
  by (simp add: statistics_def final_state_time_def completed_def mean_or_zero_def
      busy_time_def add_state_time_def dict_get_def Let_def sample_exit_def sample_result_def)

lemma sample_simulate:
  "simulate_mm1_queue (\<lambda>k. sample_draws) ambient 1 1 (5 / 2) (Some 42) = Some (Inr sample_result)"
  by (simp add: simulate_mm1_queue_def sample_final_state sample_statistics)

subsection \<open>The state-time ledger\<close>



subsection \<open>The transitions and the population count\<close>

lemma arrival_count:
  "arrival arrival_rate service_rate draws s = Inr s' \<Longrightarrow>
   current_state s' = current_state s + 1 \<and> current_time s' = next_arrival_time s"
  by (auto simp: arrival_def Let_def split: sum.splits if_splits)

lemma departure_count:
  "departure service_rate draws d s = Inr s' \<Longrightarrow>
   current_state s' = current_state s - 1 \<and> current_time s' = d"
  by (auto simp: departure_def Let_def split: sum.splits list.splits)

text \<open>
  C5. When the next arrival and the pending departure fall on the same instant, the loop
  body is the arrival transition: the population grows by one and the clock moves to the
  arrival time. A step that lowers the population, a departure, is taken only when the
  pending departure is strictly earlier than the next arrival.
\<close>

theorem arrival_wins_tie:
  "(next_departure_time s = Finite (next_arrival_time s) \<longrightarrow>
      loop_body arrival_rate service_rate draws s = arrival arrival_rate service_rate draws s \<and>
      (\<forall>s'. loop_body arrival_rate service_rate draws s = Inr s' \<longrightarrow>
         current_state s' = current_state s + 1 \<and> current_time s' = next_arrival_time s)) \<and>
   (loop_body arrival_rate service_rate draws s = Inr s'' \<and>
      current_state s'' = current_state s - 1 \<longrightarrow>
      (\<exists>d. next_departure_time s = Finite d \<and> d < next_arrival_time s \<and>
           departure service_rate draws d s = Inr s''))"
proof (intro conjI impI allI)
  assume tie: "next_departure_time s = Finite (next_arrival_time s)"
  then show eq: "loop_body arrival_rate service_rate draws s
      = arrival arrival_rate service_rate draws s"
    by (simp add: loop_body_def)
  fix s'
  assume "loop_body arrival_rate service_rate draws s = Inr s'"
  with eq have "arrival arrival_rate service_rate draws s = Inr s'" by simp
  then show "current_state s' = current_state s + 1" and "current_time s' = next_arrival_time s"
    by (simp_all add: arrival_count)
next
  assume a: "loop_body arrival_rate service_rate draws s = Inr s'' \<and>
      current_state s'' = current_state s - 1"
  show "\<exists>d. next_departure_time s = Finite d \<and> d < next_arrival_time s \<and>
           departure service_rate draws d s = Inr s''"
  proof (cases "next_departure_time s")
    case Infinity
    with a have "arrival arrival_rate service_rate draws s = Inr s''"
      by (simp add: loop_body_def)
    with a show ?thesis by (simp add: arrival_count)
  next
    case (Finite d)
    show ?thesis
    proof (cases "next_arrival_time s \<le> d")
      case True
      with a Finite have "arrival arrival_rate service_rate draws s = Inr s''"
        by (simp add: loop_body_def)
      with a show ?thesis by (simp add: arrival_count)
    next
      case False
      with a Finite show ?thesis by (simp add: loop_body_def)
    qed
  qed
qed

theorem arrival_wins_tie_witness:
  "next_departure_time sample_state1 = Finite (next_arrival_time sample_state1) \<and>
   loop_body 1 1 sample_draws sample_state1 = arrival 1 1 sample_draws sample_state1 \<and>
   loop_body 1 1 sample_draws sample_state1 = Inr sample_state2 \<and>
   current_state sample_state2 = current_state sample_state1 + 1 \<and>
   current_time sample_state2 = next_arrival_time sample_state1 \<and>
   loop_body 1 1 sample_draws sample_state2 = Inr sample_state3 \<and>
   current_state sample_state3 = current_state sample_state2 - 1 \<and>
   (\<exists>d. next_departure_time sample_state2 = Finite d \<and> d < next_arrival_time sample_state2 \<and>
        departure 1 sample_draws d sample_state2 = Inr sample_state3)"
proof -
  have tie: "next_departure_time sample_state1 = Finite (next_arrival_time sample_state1)"
    by (simp add: sample_state1_def)
  have down: "current_state sample_state3 = current_state sample_state2 - 1"
    by (simp add: sample_state2_def sample_state3_def)
  from arrival_wins_tie [of sample_state1 1 1 sample_draws] tie sample_step2
  have "loop_body 1 1 sample_draws sample_state1 = arrival 1 1 sample_draws sample_state1 \<and>
    current_state sample_state2 = current_state sample_state1 + 1 \<and>
    current_time sample_state2 = next_arrival_time sample_state1"
    by blast
  moreover from arrival_wins_tie [of sample_state2 1 1 sample_draws sample_state3]
    sample_step3 down
  have "\<exists>d. next_departure_time sample_state2 = Finite d \<and> d < next_arrival_time sample_state2 \<and>
        departure 1 sample_draws d sample_state2 = Inr sample_state3"
    by blast
  ultimately show ?thesis using tie down sample_step2 sample_step3 by blast
qed

text \<open>
  C7. The population count is 0 in the initial state, each processed arrival adds exactly
  one and each processed departure takes exactly one away, and the count is never negative
  at the head of the loop, that is, initially and after every processed event.
\<close>

theorem population_count:
  "(initial_state draws arrival_rate = Inr s0 \<longrightarrow> current_state s0 = 0) \<and>
   (reachable arrival_rate service_rate simulation_time draws s \<longrightarrow> 0 \<le> current_state s) \<and>
   (loop_body arrival_rate service_rate draws s = Inr s' \<longrightarrow>
      current_state s' =
        (if arrival_is_next s then current_state s + 1 else current_state s - 1))"
proof (intro conjI impI)
  assume "initial_state draws arrival_rate = Inr s0"
  then show "current_state s0 = 0"
    by (auto simp: initial_state_def split: sum.splits)
next
  assume "reachable arrival_rate service_rate simulation_time draws s"
  then have "server_inv s" by (rule reachable_server_inv)
  then show "0 \<le> current_state s" by (simp add: server_inv_def)
next
  assume "loop_body arrival_rate service_rate draws s = Inr s'"
  then show "current_state s' =
      (if arrival_is_next s then current_state s + 1 else current_state s - 1)"
    by (auto simp: loop_body_cases arrival_is_next_def arrival_count departure_count
        split: etime.splits if_splits)
qed

theorem population_count_witness:
  "initial_state sample_draws 1 = Inr sample_state0 \<and> current_state sample_state0 = 0 \<and>
   reachable 1 1 (5 / 2) sample_draws sample_state3 \<and> 0 \<le> current_state sample_state3 \<and>
   loop_body 1 1 sample_draws sample_state2 = Inr sample_state3 \<and>
   \<not> arrival_is_next sample_state2 \<and>
   current_state sample_state3 = current_state sample_state2 - 1"
proof -
  have dep: "\<not> arrival_is_next sample_state2"
    by (simp add: arrival_is_next_def sample_state2_def)
  from population_count [where draws = sample_draws and arrival_rate = 1
      and service_rate = 1 and simulation_time = "5 / 2" and ?s0.0 = sample_state0
      and s = sample_state3]
    sample_initial sample_reachable3
  have "current_state sample_state0 = 0 \<and> 0 \<le> current_state sample_state3"
    by blast
  moreover from population_count [where draws = sample_draws and arrival_rate = 1
      and service_rate = 1 and s = sample_state2 and s' = sample_state3]
    sample_step3 dep
  have "current_state sample_state3 = current_state sample_state2 - 1"
    by simp
  ultimately show ?thesis using sample_initial sample_reachable3 sample_step3 dep by blast
qed



subsection \<open>The order of the times in a customer record\<close>

lemma exponential_nonneg:
  "exponential draws rate i = Inr x \<Longrightarrow> 0 \<le> draws i \<Longrightarrow> 0 \<le> x"
  by (auto simp: exponential_def split: if_splits)

lemma initial_time_inv:
  "initial_state draws arrival_rate = Inr s \<Longrightarrow> 0 \<le> draws 0 \<Longrightarrow> time_inv s"
  by (auto simp: initial_state_def time_inv_def split: sum.splits dest: exponential_nonneg)

lemma arrival_time_inv:
  assumes "time_inv s" and "arrival_is_next s" and "\<forall>i. 0 \<le> draws i"
    and "arrival arrival_rate service_rate draws s = Inr s'"
  shows "time_inv s'"
proof -
  from assms(4) obtain ia where ia: "exponential draws arrival_rate (rng_pos s) = Inr ia"
    by (auto simp: arrival_def Let_def split: sum.splits)
  with assms(3) have ia0: "0 \<le> ia" by (auto dest: exponential_nonneg)
  show ?thesis
  proof (cases "server_busy s")
    case True
    with assms(4) ia have s': "s' = s\<lparr> state_time :=
        add_state_time (state_time s) (current_state s) (next_arrival_time s - last_event_time s),
        last_event_time := next_arrival_time s, current_time := next_arrival_time s,
        next_arrival_time := next_arrival_time s + ia, rng_pos := rng_pos s + 1,
        queue := queue s @ [next_arrival_time s], current_state := current_state s + 1 \<rparr>"
      by (simp add: arrival_def Let_def)
    from assms(1,2) ia0 show ?thesis
      unfolding s' time_inv_def arrival_is_next_def
      by (auto split: etime.splits)
  next
    case False
    with assms(4) ia obtain sv where sv: "exponential draws service_rate (rng_pos s + 1) = Inr sv"
      and s': "s' = s\<lparr> state_time :=
        add_state_time (state_time s) (current_state s) (next_arrival_time s - last_event_time s),
        last_event_time := next_arrival_time s, current_time := next_arrival_time s,
        next_arrival_time := next_arrival_time s + ia, rng_pos := rng_pos s + 1,
        server_busy := True, server_start_time := next_arrival_time s,
        next_departure_time := Finite (next_arrival_time s + sv),
        customer_stats := customer_stats s
           @ [(next_arrival_time s, next_arrival_time s, next_arrival_time s + sv)],
        rng_pos := rng_pos s + 2, current_state := current_state s + 1 \<rparr>"
      by (auto simp: arrival_def Let_def split: sum.splits)
    from sv assms(3) have sv0: "0 \<le> sv" by (auto dest: exponential_nonneg)
    from assms(1) ia0 sv0 show ?thesis
      unfolding s' time_inv_def
      by auto
  qed
qed

lemma departure_time_inv:
  assumes "time_inv s" and "next_departure_time s = Finite d" and "d < next_arrival_time s"
    and "\<forall>i. 0 \<le> draws i"
    and "departure service_rate draws d s = Inr s'"
  shows "time_inv s'"
proof (cases "queue s")
  case Nil
  with assms(5) have s': "s' = s\<lparr> state_time :=
        add_state_time (state_time s) (current_state s) (d - last_event_time s),
        last_event_time := d, current_time := d, current_state := current_state s - 1,
        server_busy := False, next_departure_time := Infinity \<rparr>"
    by (simp add: departure_def Let_def)
  from assms(1,2,3) Nil show ?thesis
    unfolding s' time_inv_def by auto
next
  case (Cons a rest)
  with assms(5) obtain sv where sv: "exponential draws service_rate (rng_pos s) = Inr sv"
    and s': "s' = s\<lparr> state_time :=
        add_state_time (state_time s) (current_state s) (d - last_event_time s),
        last_event_time := d, current_time := d, current_state := current_state s - 1,
        queue := rest, next_departure_time := Finite (d + sv),
        customer_stats := customer_stats s @ [(a, d, d + sv)],
        server_start_time := d, rng_pos := rng_pos s + 1 \<rparr>"
    by (auto simp: departure_def Let_def split: sum.splits)
  from sv assms(4) have sv0: "0 \<le> sv" by (auto dest: exponential_nonneg)
  from assms(1,2,3) Cons sv0 show ?thesis
    unfolding s' time_inv_def by auto
qed

lemma loop_body_time_inv:
  assumes "time_inv s" and "\<forall>i. 0 \<le> draws i"
    and "loop_body arrival_rate service_rate draws s = Inr s'"
  shows "time_inv s'"
proof (cases "arrival_is_next s")
  case True
  with assms(3) have "arrival arrival_rate service_rate draws s = Inr s'"
    by (simp add: loop_body_cases)
  with assms(1) True assms(2) show ?thesis by (rule arrival_time_inv)
next
  case False
  then obtain d where d: "next_departure_time s = Finite d" and lt: "d < next_arrival_time s"
    by (auto simp: arrival_is_next_def split: etime.splits)
  with assms(3) False have "departure service_rate draws d s = Inr s'"
    by (simp add: loop_body_cases)
  with assms(1) d lt assms(2) show ?thesis by (rule departure_time_inv)
qed

lemma reachable_time_inv:
  "reachable arrival_rate service_rate simulation_time draws s \<Longrightarrow> \<forall>i. 0 \<le> draws i \<Longrightarrow>
   time_inv s"
  by (induction rule: reachable.induct) (auto intro: initial_time_inv loop_body_time_inv)

text \<open>
  C9. With the non-negative variates of the sample source, every completed customer
  record of a run (departure within the horizon) has a non-negative queue time and a
  system time at least as long: arrival, start of service and departure are in order.
\<close>

theorem completed_records_ordered:
  assumes "\<forall>i. 0 \<le> draws i"
    and "final_state draws arrival_rate service_rate simulation_time = Some (Inr s)"
    and "(arrival_time, service_start_time, departure_time)
           \<in> set (completed simulation_time (customer_stats s))"
  shows "0 \<le> service_start_time - arrival_time \<and>
         service_start_time - arrival_time \<le> departure_time - arrival_time \<and>
         arrival_time \<le> service_start_time \<and> service_start_time \<le> departure_time \<and>
         departure_time \<le> simulation_time"
proof -
  from assms(2) have "reachable arrival_rate service_rate simulation_time draws s"
    using final_state_reachable by blast
  with assms(1) have "time_inv s" by (simp add: reachable_time_inv)
  moreover from assms(3)
  have "(arrival_time, service_start_time, departure_time) \<in> set (customer_stats s)"
    and "departure_time \<le> simulation_time"
    by (simp_all add: completed_def)
  ultimately show ?thesis by (auto simp: time_inv_def)
qed

theorem completed_records_ordered_witness:
  "(\<forall>i. 0 \<le> sample_draws i) \<and>
   final_state sample_draws 1 1 (5 / 2) = Some (Inr sample_exit) \<and>
   (1, 1, 2) \<in> set (completed (5 / 2) (customer_stats sample_exit)) \<and>
   (0::real) \<le> 1 - 1 \<and> (1::real) - 1 \<le> 2 - 1 \<and> (1::real) \<le> 1 \<and> (1::real) \<le> 2 \<and>
   (2::real) \<le> 5 / 2"
proof -
  have nonneg: "\<forall>i. 0 \<le> sample_draws i" by (simp add: sample_draws_def)
  have mem: "(1, 1, 2) \<in> set (completed (5 / 2) (customer_stats sample_exit))"
    by (simp add: completed_def sample_exit_def)
  from completed_records_ordered [OF nonneg sample_final_state mem] nonneg
    sample_final_state mem
  show ?thesis by blast
qed

subsection \<open>Recorded and completed customers\<close>

lemma initial_record_inv:
  "initial_state draws arrival_rate = Inr s \<Longrightarrow> record_inv T s"
  by (auto simp: initial_state_def record_inv_def departed_def split: sum.splits)

lemma arrival_record_inv:
  assumes "record_inv T s" and "server_inv s" and "current_time s < T"
    and "arrival arrival_rate service_rate draws s = Inr s'"
  shows "record_inv T s'"
proof -
  from assms(1,3) have old: "\<forall>r \<in> set (departed s). departure_of r < T"
    by (auto simp: record_inv_def)
  from assms(4) obtain ia where ia: "exponential draws arrival_rate (rng_pos s) = Inr ia"
    by (auto simp: arrival_def Let_def split: sum.splits)
  show ?thesis
  proof (cases "server_busy s")
    case True
    with assms(4) ia have "customer_stats s' = customer_stats s" and "server_busy s'"
      and "next_departure_time s' = next_departure_time s"
      by (auto simp: arrival_def Let_def)
    with assms(1) old True show ?thesis
      by (auto simp: record_inv_def departed_def dest: in_set_butlastD)
  next
    case False
    with assms(4) ia obtain sv where
      "customer_stats s' = customer_stats s
         @ [(next_arrival_time s, next_arrival_time s, next_arrival_time s + sv)]"
      and "server_busy s'"
      and "next_departure_time s' = Finite (next_arrival_time s + sv)"
      by (auto simp: arrival_def Let_def split: sum.splits)
    with old False show ?thesis
      by (auto simp: record_inv_def departed_def departure_of_def dest: in_set_butlastD)
  qed
qed

lemma departure_record_inv:
  assumes "record_inv T s" and "server_inv s" and "current_time s < T"
    and "next_departure_time s = Finite d"
    and "departure service_rate draws d s = Inr s'"
  shows "record_inv T s'"
proof -
  from assms(2,4) have busy: "server_busy s" by (auto simp: server_inv_def)
  with assms(1,4) have ne: "customer_stats s \<noteq> []"
    and last: "departure_of (last (customer_stats s)) = d"
    by (auto simp: record_inv_def)
  from assms(1,3) busy have old: "\<forall>r \<in> set (butlast (customer_stats s)). departure_of r < T"
    by (auto simp: record_inv_def departed_def)
  from ne have split: "customer_stats s = butlast (customer_stats s) @ [last (customer_stats s)]"
    by simp
  have all: "\<forall>r \<in> set (customer_stats s). departure_of r < T \<or> departure_of r = d"
  proof
    fix r assume "r \<in> set (customer_stats s)"
    then have "r \<in> set (butlast (customer_stats s)) \<or> r = last (customer_stats s)"
      by (subst (asm) split) auto
    with old last show "departure_of r < T \<or> departure_of r = d" by auto
  qed
  show ?thesis
  proof (cases "queue s")
    case Nil
    with assms(5) have "customer_stats s' = customer_stats s" and "\<not> server_busy s'"
      and "current_time s' = d"
      by (auto simp: departure_def Let_def)
    with all old show ?thesis
      by (auto simp: record_inv_def departed_def)
  next
    case (Cons a rest)
    with assms(5) busy obtain sv where
      "customer_stats s' = customer_stats s @ [(a, d, d + sv)]"
      and "server_busy s'" and "current_time s' = d"
      and "next_departure_time s' = Finite (d + sv)"
      by (auto simp: departure_def Let_def split: sum.splits)
    with all old show ?thesis
      by (auto simp: record_inv_def departed_def departure_of_def)
  qed
qed

lemma loop_body_record_inv:
  assumes "record_inv T s" and "server_inv s" and "current_time s < T"
    and "loop_body arrival_rate service_rate draws s = Inr s'"
  shows "record_inv T s'"
  using assms
  by (auto simp: loop_body_def split: etime.splits if_splits
      intro: arrival_record_inv departure_record_inv)

lemma reachable_record_inv:
  "reachable arrival_rate service_rate simulation_time draws s \<Longrightarrow> record_inv simulation_time s"
proof (induction rule: reachable.induct)
  case (start s)
  then show ?case by (rule initial_record_inv)
next
  case (event s s')
  from event(1) have "server_inv s" by (rule reachable_server_inv)
  with event(4) show ?case using event(2,3) by (rule loop_body_record_inv)
qed

lemma filter_all_but_two:
  assumes "\<forall>r \<in> set (butlast (butlast xs)). P r"
  shows "length xs \<le> length (filter P xs) + 2"
proof -
  have "butlast (butlast xs) = take (length xs - 2) xs"
    by (simp add: butlast_conv_take numeral_2_eq_2)
  then have "xs = butlast (butlast xs) @ drop (length xs - 2) xs"
    by simp
  then have "length (filter P xs) =
      length (filter P (butlast (butlast xs))) + length (filter P (drop (length xs - 2) xs))"
    by (metis filter_append length_append)
  moreover from assms have "filter P (butlast (butlast xs)) = butlast (butlast xs)"
    by (simp add: filter_id_conv)
  ultimately show ?thesis by simp
qed

lemma completed_filter:
  "completed T stats = filter (\<lambda>r. departure_of r \<le> T) stats"
proof -
  have "(\<lambda>(arrival_time, service_start_time, departure_time). departure_time \<le> T)
      = (\<lambda>r. departure_of r \<le> T)"
    by (auto simp: fun_eq_iff departure_of_def)
  then show ?thesis by (simp add: completed_def)
qed

lemma late_records_at_most_two:
  assumes "record_inv T s"
  shows "length (customer_stats s) \<le> length (completed T (customer_stats s)) + 2"
proof -
  have sub: "set (butlast (butlast (customer_stats s))) \<subseteq> set (butlast (departed s))"
    by (auto simp: departed_def dest: in_set_butlastD)
  with assms have "\<forall>r \<in> set (butlast (butlast (customer_stats s))). departure_of r \<le> T"
    by (fastforce simp: record_inv_def)
  then have "length (customer_stats s)
      \<le> length (filter (\<lambda>r. departure_of r \<le> T) (customer_stats s)) + 2"
    by (rule filter_all_but_two)
  then show ?thesis by (simp add: completed_filter)
qed

text \<open>
  C10. In the result of every run, the completed customers are at most the recorded ones,
  and at most two recorded customers are not completed: at the exit of the loop at most
  two records have a departure time beyond the horizon.
\<close>

theorem completed_within_two_of_total:
  "(final_state draws arrival_rate service_rate simulation_time = Some (Inr s) \<longrightarrow>
      length (filter (\<lambda>r. departure_of r > simulation_time) (customer_stats s)) \<le> 2) \<and>
   (simulate_mm1_queue seeded ambient arrival_rate service_rate simulation_time seed
      = Some (Inr r) \<longrightarrow>
      completed_customers r \<le> total_customers r \<and>
      total_customers r \<le> completed_customers r + 2)"
proof (intro conjI impI)
  assume "final_state draws arrival_rate service_rate simulation_time = Some (Inr s)"
  then have "record_inv simulation_time s"
    using final_state_reachable reachable_record_inv by blast
  then have "length (customer_stats s)
      \<le> length (completed simulation_time (customer_stats s)) + 2"
    by (rule late_records_at_most_two)
  moreover have "completed simulation_time (customer_stats s)
      = filter (\<lambda>r. \<not> departure_of r > simulation_time) (customer_stats s)"
    by (simp add: completed_filter not_less)
  moreover have "length (customer_stats s) =
      length (filter (\<lambda>r. departure_of r > simulation_time) (customer_stats s)) +
      length (filter (\<lambda>r. \<not> departure_of r > simulation_time) (customer_stats s))"
    by (rule sum_length_filter_compl [symmetric])
  ultimately show
    "length (filter (\<lambda>r. departure_of r > simulation_time) (customer_stats s)) \<le> 2"
    by simp
next
  assume "simulate_mm1_queue seeded ambient arrival_rate service_rate simulation_time seed
            = Some (Inr r)"
  then obtain s' where
    f: "final_state (case seed of Some k \<Rightarrow> seeded k | None \<Rightarrow> ambient)
          arrival_rate service_rate simulation_time = Some (Inr s')"
    and st: "statistics simulation_time s' = Inr r"
    by (rule simulate_final_state)
  from f have "record_inv simulation_time s'"
    using final_state_reachable reachable_record_inv by blast
  then have "length (customer_stats s')
      \<le> length (completed simulation_time (customer_stats s')) + 2"
    by (rule late_records_at_most_two)
  moreover from st have "total_customers r = length (customer_stats s')"
    and "completed_customers r = length (completed simulation_time (customer_stats s'))"
    by (auto simp: statistics_def Let_def split: if_splits)
  moreover have "length (completed simulation_time (customer_stats s'))
      \<le> length (customer_stats s')"
    by (simp add: completed_def)
  ultimately show "completed_customers r \<le> total_customers r"
    and "total_customers r \<le> completed_customers r + 2"
    by simp_all
qed

theorem completed_within_two_of_total_witness:
  "final_state sample_draws 1 1 (5 / 2) = Some (Inr sample_exit) \<and>
   length (filter (\<lambda>r. departure_of r > 5 / 2) (customer_stats sample_exit)) \<le> 2 \<and>
   simulate_mm1_queue (\<lambda>k. sample_draws) sample_draws 1 1 (5 / 2) (Some 42)
     = Some (Inr sample_result) \<and>
   completed_customers sample_result \<le> total_customers sample_result \<and>
   total_customers sample_result \<le> completed_customers sample_result + 2"
  using completed_within_two_of_total [of sample_draws 1 1 "5 / 2" sample_exit
      "\<lambda>k. sample_draws" sample_draws "Some 42" sample_result]
    sample_final_state sample_simulate
  by blast

subsection \<open>Runs beyond the horizon, seeds and parameters\<close>

lemmas run_defs = simulate_mm1_queue_def final_state_def initial_state_def exponential_def
  loop_body_def arrival_def departure_def add_state_time_def dict_get_def statistics_def
  final_state_time_def completed_def mean_or_zero_def busy_time_def Let_def

lemma late_simulate:
  "simulate_mm1_queue (\<lambda>k. late_draws) ambient 1 1 (2 / 5) (Some 42) = Some (Inr late_result)"
  by (simp add: run_defs event_loop.simps late_draws_def late_result_def)

lemma crowded_simulate:
  "\<exists>r. simulate_mm1_queue (\<lambda>k. crowded_draws) ambient 1 1 (5 / 2) (Some 42) = Some (Inr r) \<and>
       total_customers r = 2 \<and> completed_customers r = 0"
  by (simp add: run_defs event_loop.simps crowded_draws_def)


text \<open>
  C2. The claim bounds the utilization by 0 and 1. The loop processes the event it has
  chosen even when that event lies beyond the horizon; in the run below the first arrival
  comes after the horizon, the server is marked busy from that instant, and the partial
  busy interval of line 101 is negative: so are the busy time and the utilization.
\<close>

theorem utilization_negative_run:
  "simulate_mm1_queue (\<lambda>k. late_draws) late_draws 1 1 (2 / 5) (Some 42)
     = Some (Inr late_result) \<and>
   server_busy_time late_result = - (692680899768591 / 10000000000000000) \<and>
   server_utilization late_result = - (692680899768591 / 4000000000000000) \<and>
   server_utilization late_result < 0"
  by (simp add: late_simulate late_result_def)

text \<open>
  C4. Each entry of \<open>state_probabilities\<close> is the ledger entry divided by the horizon,
  but the entries need not lie between 0 and 1: in the same run the ledger holds the whole
  time up to the late arrival for count 0 and the negative remainder for count 1.
\<close>

theorem probabilities_outside_unit_interval_run:
  "simulate_mm1_queue (\<lambda>k. late_draws) late_draws 1 1 (2 / 5) (Some 42)
     = Some (Inr late_result) \<and>
   state_probabilities late_result =
     [(0, 4692680899768591 / 4000000000000000),
      (1, - (692680899768591 / 4000000000000000))] \<and>
   (1::real) < 4692680899768591 / 4000000000000000 \<and>
   - (692680899768591 / 4000000000000000) < (0::real)"
  by (simp add: late_simulate late_result_def)

text \<open>
  C6. With a seed, the result of a run is the same whatever sequence the process-wide
  generator was on before the call: two calls with the same parameters and the same seed
  return the same value, be it a result, an error or no return.
\<close>

theorem seeded_runs_identical:
  "simulate_mm1_queue seeded ambient1 arrival_rate service_rate simulation_time (Some seed) =
   simulate_mm1_queue seeded ambient2 arrival_rate service_rate simulation_time (Some seed)"
  by (simp add: simulate_mm1_queue_def)

lemma unseeded_runs_differ:
  "simulate_mm1_queue seeded sample_draws 1 1 (2 / 5) None \<noteq>
   simulate_mm1_queue seeded late_draws 1 1 (2 / 5) None"
  by (simp add: run_defs event_loop.simps late_draws_def sample_draws_def)


lemma exponential_cases:
  "exponential draws rate i =
     (if rate = 0 then Inl ZeroDivisionError else if rate < 0 then Inl ValueError
      else Inr (draws i / rate))"
  by (simp add: exponential_def divide_less_0_iff)

lemma initial_state_positive:
  "0 < arrival_rate \<Longrightarrow>
   initial_state draws arrival_rate =
     Inr \<lparr> current_time = 0, server_busy = False, server_start_time = 0,
           next_departure_time = Infinity, queue = [], customer_stats = [],
           last_event_time = 0, state_time = [(0, 0)], current_state = 0,
           next_arrival_time = draws 0 / arrival_rate, rng_pos = 1 \<rparr>"
  by (simp add: initial_state_def exponential_cases)






text \<open>
  The late first arrival in general: for all positive rates and every positive horizon, a
  first interarrival time beyond the horizon gives a negative utilization, a probability
  above 1 for count 0 and a negative one for count 1.
\<close>

lemma late_first_arrival_state:
  assumes "0 < arrival_rate" and "0 < service_rate" and "0 < simulation_time"
    and "simulation_time < draws 0 / arrival_rate"
  shows "final_state draws arrival_rate service_rate simulation_time =
     Some (Inr \<lparr> current_time = draws 0 / arrival_rate, server_busy = True,
       server_start_time = draws 0 / arrival_rate,
       next_departure_time = Finite (draws 0 / arrival_rate + draws 2 / service_rate),
       queue = [],
       customer_stats = [(draws 0 / arrival_rate, draws 0 / arrival_rate,
                          draws 0 / arrival_rate + draws 2 / service_rate)],
       last_event_time = draws 0 / arrival_rate,
       state_time = [(0, draws 0 / arrival_rate)], current_state = 1,
       next_arrival_time = draws 0 / arrival_rate + draws 1 / arrival_rate,
       rng_pos = 3 \<rparr>)"
  using assms
  apply (simp add: final_state_def initial_state_positive)
  apply (subst event_loop.simps)
  apply (simp add: loop_body_def arrival_def exponential_cases add_state_time_def dict_get_def
      Let_def)
  apply (subst event_loop.simps)
  apply (simp add: numeral_2_eq_2)
  done

lemma late_first_arrival:
  assumes "0 < arrival_rate" and "0 < service_rate" and "0 < simulation_time"
    and "simulation_time < draws 0 / arrival_rate" and "0 \<le> draws 2"
  shows "\<exists>r. simulate_mm1_queue (\<lambda>k. draws) ambient arrival_rate service_rate simulation_time
             (Some seed) = Some (Inr r) \<and>
           server_utilization r = (simulation_time - draws 0 / arrival_rate) / simulation_time \<and>
           server_utilization r < 0 \<and>
           state_probabilities r =
             [(0, draws 0 / arrival_rate / simulation_time),
              (1, (simulation_time - draws 0 / arrival_rate) / simulation_time)]"
proof -
  from assms(2,5) have "0 \<le> draws 2 / service_rate" by simp
  with assms(3,4) have "simulation_time < draws 0 / arrival_rate + draws 2 / service_rate"
    by linarith
  with assms show ?thesis
    by (simp add: simulate_mm1_queue_def late_first_arrival_state statistics_def
        final_state_time_def completed_def busy_time_def add_state_time_def dict_get_def
        mean_or_zero_def Let_def divide_neg_pos)
qed

subsection \<open>What holds of the utilization\<close>

text \<open>
  With non-negative variates and a positive horizon the utilization never exceeds 1, and
  it is non-negative whenever the service in progress at the exit, if any, started within
  the horizon.
\<close>

lemma served_time_snoc:
  "served_time T (xs @ [(a, b, c)]) = served_time T xs + (if c \<le> T then c - b else 0)"
  by (simp add: served_time_def completed_def)

lemma initial_busy_inv:
  "initial_state draws arrival_rate = Inr s \<Longrightarrow> 0 \<le> T \<Longrightarrow> busy_inv T s"
  by (auto simp: initial_state_def busy_inv_def departed_def served_time_def completed_def
      split: sum.splits)

lemma arrival_busy_inv:
  assumes "busy_inv T s" and "time_inv s" and "\<forall>i. 0 \<le> draws i"
    and "arrival arrival_rate service_rate draws s = Inr s'"
  shows "busy_inv T s'"
proof -
  from assms(4) obtain ia where ia: "exponential draws arrival_rate (rng_pos s) = Inr ia"
    by (auto simp: arrival_def Let_def split: sum.splits)
  show ?thesis
  proof (cases "server_busy s")
    case True
    with assms(4) ia have "customer_stats s' = customer_stats s" and "server_busy s'"
      and "next_departure_time s' = next_departure_time s"
      and "server_start_time s' = server_start_time s"
      by (auto simp: arrival_def Let_def)
    with assms(1) True show ?thesis
      by (simp add: busy_inv_def departed_def)
  next
    case False
    with assms(4) ia obtain sv where sv: "exponential draws service_rate (rng_pos s + 1) = Inr sv"
      and "customer_stats s' = customer_stats s
         @ [(next_arrival_time s, next_arrival_time s, next_arrival_time s + sv)]"
      and "server_busy s'"
      and "next_departure_time s' = Finite (next_arrival_time s + sv)"
      and "server_start_time s' = next_arrival_time s"
      by (auto simp: arrival_def Let_def split: sum.splits)
    moreover from sv assms(3) have "0 \<le> sv" by (auto dest: exponential_nonneg)
    moreover from assms(2) have "current_time s \<le> next_arrival_time s"
      by (simp add: time_inv_def)
    ultimately show ?thesis
      using assms(1) False by (simp add: busy_inv_def departed_def)
  qed
qed

lemma departure_busy_inv:
  assumes "busy_inv T s" and "server_inv s" and "\<forall>i. 0 \<le> draws i"
    and "next_departure_time s = Finite d"
    and "departure service_rate draws d s = Inr s'"
  shows "busy_inv T s'"
proof -
  from assms(2,4) have busy: "server_busy s" by (auto simp: server_inv_def)
  with assms(1,4) obtain a where ne: "customer_stats s \<noteq> []"
    and last: "last (customer_stats s) = (a, server_start_time s, d)"
    and le: "server_start_time s \<le> d"
    by (auto simp: busy_inv_def)
  from ne last have split: "customer_stats s = departed s @ [(a, server_start_time s, d)]"
    using busy by (simp add: departed_def) (metis append_butlast_last_id)
  then have served: "served_time T (customer_stats s) =
      served_time T (departed s) + (if d \<le> T then d - server_start_time s else 0)"
    by (simp add: served_time_snoc)
  from assms(1) busy have F: "0 \<le> served_time T (departed s)"
    "served_time T (departed s) \<le> T" "served_time T (departed s) \<le> server_start_time s"
    by (simp_all add: busy_inv_def)
  from F le served have bounds: "0 \<le> served_time T (customer_stats s)"
    "served_time T (customer_stats s) \<le> T" "served_time T (customer_stats s) \<le> d"
    by (auto split: if_splits)
  show ?thesis
  proof (cases "queue s")
    case Nil
    with assms(5) have "customer_stats s' = customer_stats s" and "\<not> server_busy s'"
      and "current_time s' = d"
      by (auto simp: departure_def Let_def)
    with bounds show ?thesis
      by (simp add: busy_inv_def departed_def)
  next
    case (Cons a' rest)
    with assms(5) busy obtain sv where sv: "exponential draws service_rate (rng_pos s) = Inr sv"
      and "customer_stats s' = customer_stats s @ [(a', d, d + sv)]"
      and "server_busy s'" and "server_start_time s' = d"
      and "next_departure_time s' = Finite (d + sv)"
      by (auto simp: departure_def Let_def split: sum.splits)
    moreover from sv assms(3) have "0 \<le> sv" by (auto dest: exponential_nonneg)
    ultimately show ?thesis
      using bounds by (simp add: busy_inv_def departed_def)
  qed
qed

lemma loop_body_busy_inv:
  assumes "busy_inv T s" and "server_inv s" and "time_inv s" and "\<forall>i. 0 \<le> draws i"
    and "loop_body arrival_rate service_rate draws s = Inr s'"
  shows "busy_inv T s'"
  using assms
  by (auto simp: loop_body_def split: etime.splits if_splits
      intro: arrival_busy_inv departure_busy_inv)

lemma reachable_busy_inv:
  assumes "\<forall>i. 0 \<le> draws i" and "0 \<le> simulation_time"
  shows "reachable arrival_rate service_rate simulation_time draws s \<Longrightarrow>
         busy_inv simulation_time s"
proof (induction rule: reachable.induct)
  case (start s)
  with assms(2) show ?case by (simp add: initial_busy_inv)
next
  case (event s s')
  from event(1) have "server_inv s" by (rule reachable_server_inv)
  moreover from event(1) assms(1) have "time_inv s" by (rule reachable_time_inv)
  ultimately show ?case using event(4,3) assms(1) loop_body_busy_inv by blast
qed

lemma busy_time_bounds:
  assumes "busy_inv T s"
  shows "busy_time T s \<le> T \<and>
         ((server_busy s \<longrightarrow> server_start_time s \<le> T) \<longrightarrow> 0 \<le> busy_time T s)"
proof -
  have bt: "busy_time T s = served_time T (customer_stats s)
      + (if server_busy s \<and> etime_gt (next_departure_time s) T
         then T - server_start_time s else 0)"
    by (simp add: busy_time_def served_time_def)
  show ?thesis
  proof (cases "server_busy s")
    case False
    with assms(1) bt show ?thesis
      by (simp add: busy_inv_def departed_def)
  next
    case True
    with assms(1) obtain a d where ne: "customer_stats s \<noteq> []"
      and last: "last (customer_stats s) = (a, server_start_time s, d)"
      and d: "next_departure_time s = Finite d"
      and le: "server_start_time s \<le> d"
      by (auto simp: busy_inv_def)
    from ne last True have "customer_stats s = departed s @ [(a, server_start_time s, d)]"
      by (simp add: departed_def) (metis append_butlast_last_id)
    then have served: "served_time T (customer_stats s) =
        served_time T (departed s) + (if d \<le> T then d - server_start_time s else 0)"
      by (simp add: served_time_snoc)
    from assms(1) True have F: "0 \<le> served_time T (departed s)"
      "served_time T (departed s) \<le> server_start_time s"
      by (simp_all add: busy_inv_def)
    from bt served d True F le show ?thesis
      by (auto split: if_splits)
  qed
qed

lemma utilization_at_most_one:
  assumes "\<forall>i. 0 \<le> (case seed of Some k \<Rightarrow> seeded k | None \<Rightarrow> ambient) i"
    and "0 < simulation_time"
    and "simulate_mm1_queue seeded ambient arrival_rate service_rate simulation_time seed
           = Some (Inr r)"
  shows "server_utilization r \<le> 1"
proof -
  from assms(3) obtain s where
    f: "final_state (case seed of Some k \<Rightarrow> seeded k | None \<Rightarrow> ambient)
          arrival_rate service_rate simulation_time = Some (Inr s)"
    and st: "statistics simulation_time s = Inr r"
    by (rule simulate_final_state)
  from f have r: "reachable arrival_rate service_rate simulation_time
      (case seed of Some k \<Rightarrow> seeded k | None \<Rightarrow> ambient) s"
    using final_state_reachable by blast
  with assms(1,2) have "busy_inv simulation_time s" by (simp add: reachable_busy_inv)
  then have "busy_time simulation_time s \<le> simulation_time"
    by (simp add: busy_time_bounds)
  moreover from st have "server_utilization r = busy_time simulation_time s / simulation_time"
    by (auto simp: statistics_def Let_def split: if_splits)
  ultimately show ?thesis using assms(2) by simp
qed

lemma utilization_nonnegative_if_service_started_in_time:
  assumes "\<forall>i. 0 \<le> draws i" and "0 < simulation_time"
    and "final_state draws arrival_rate service_rate simulation_time = Some (Inr s)"
    and "statistics simulation_time s = Inr r"
    and "server_busy s \<longrightarrow> server_start_time s \<le> simulation_time"
  shows "0 \<le> server_utilization r"
proof -
  from assms(3) have r: "reachable arrival_rate service_rate simulation_time draws s"
    using final_state_reachable by blast
  with assms(1,2) have "busy_inv simulation_time s" by (simp add: reachable_busy_inv)
  with assms(5) have "0 \<le> busy_time simulation_time s"
    using busy_time_bounds by blast
  moreover from assms(4)
  have "server_utilization r = busy_time simulation_time s / simulation_time"
    by (auto simp: statistics_def Let_def split: if_splits)
  ultimately show ?thesis using assms(2) by simp
qed

subsection \<open>The loop terminates\<close>

text \<open>
  With positive rates and variates bounded away from 0 the loop is left after finitely
  many events, and the engine returns a result for every non-zero horizon.
\<close>

lemma arrival_next_arrival:
  "arrival arrival_rate service_rate draws s = Inr s' \<Longrightarrow>
   next_arrival_time s' = next_arrival_time s + draws (rng_pos s) / arrival_rate"
  by (auto simp: arrival_def exponential_cases Let_def split: sum.splits if_splits)

lemma departure_next_arrival:
  "departure service_rate draws d s = Inr s' \<Longrightarrow> next_arrival_time s' = next_arrival_time s"
  by (auto simp: departure_def Let_def split: sum.splits list.splits)

lemma loop_body_succeeds:
  "0 < arrival_rate \<Longrightarrow> 0 < service_rate \<Longrightarrow>
   \<exists>s'. loop_body arrival_rate service_rate draws s = Inr s'"
  by (auto simp: loop_body_def arrival_def departure_def exponential_cases Let_def
      split: etime.splits list.splits)

lemma ceiling_step:
  fixes x y :: real
  assumes "0 < x" and "y \<le> x - 1"
  shows "nat \<lceil>y\<rceil> < nat \<lceil>x\<rceil>"
proof -
  from assms(2) have "\<lceil>y\<rceil> \<le> \<lceil>x - 1\<rceil>" by (rule ceiling_mono)
  then have "\<lceil>y\<rceil> \<le> \<lceil>x\<rceil> - 1" by simp
  moreover from assms(1) have "0 < \<lceil>x\<rceil>" by simp
  ultimately show ?thesis by linarith
qed

lemma gap_step:
  fixes g n n' T :: real
  assumes "0 < g" and "n + g \<le> n'" and "n < T"
  shows "nat \<lceil>(T - n') / g\<rceil> < nat \<lceil>(T - n) / g\<rceil>"
proof (rule ceiling_step)
  from assms(1,3) show "0 < (T - n) / g" by simp
  from assms(2) have "T - n' \<le> T - n - g" by simp
  moreover from assms(1) have "0 \<le> g" by simp
  ultimately have "(T - n') / g \<le> (T - n - g) / g" by (rule divide_right_mono)
  also from assms(1) have "(T - n - g) / g = (T - n) / g - 1"
    by (simp add: diff_divide_distrib)
  finally show "(T - n') / g \<le> (T - n) / g - 1" .
qed

lemma arrival_decreases:
  assumes "0 < arrival_rate" and "0 < \<delta>" and "\<forall>i. \<delta> \<le> draws i"
    and "next_arrival_time s < simulation_time"
    and "arrival arrival_rate service_rate draws s = Inr s'"
    and "0 \<le> current_state s"
  shows "remaining_events (\<delta> / arrival_rate) simulation_time s'
       < remaining_events (\<delta> / arrival_rate) simulation_time s"
proof -
  define g where "g = \<delta> / arrival_rate"
  from assms(1,2) have g: "0 < g" by (simp add: g_def)
  from assms(3) have "\<delta> \<le> draws (rng_pos s)" by simp
  moreover from assms(1) have "0 \<le> arrival_rate" by simp
  ultimately have "g \<le> draws (rng_pos s) / arrival_rate"
    unfolding g_def by (rule divide_right_mono)
  with assms(5) have "next_arrival_time s + g \<le> next_arrival_time s'"
    by (simp add: arrival_next_arrival)
  with g have "nat \<lceil>(simulation_time - next_arrival_time s') / g\<rceil>
      < nat \<lceil>(simulation_time - next_arrival_time s) / g\<rceil>"
    using assms(4) by (rule gap_step)
  moreover from assms(5,6) have "nat (current_state s') = nat (current_state s) + 1"
    by (simp add: arrival_count nat_add_distrib)
  ultimately have "remaining_events g simulation_time s' < remaining_events g simulation_time s"
    unfolding remaining_events_def by linarith
  then show ?thesis by (simp add: g_def)
qed

lemma departure_decreases:
  assumes "departure service_rate draws d s = Inr s'" and "0 < current_state s"
  shows "remaining_events gap simulation_time s' < remaining_events gap simulation_time s"
  using assms
  by (simp add: remaining_events_def departure_count departure_next_arrival)

lemma event_loop_returns:
  assumes "0 < arrival_rate" and "0 < service_rate" and "0 < \<delta>" and "\<forall>i. \<delta> \<le> draws i"
  shows "server_inv s \<Longrightarrow>
         \<exists>s'. event_loop arrival_rate service_rate simulation_time draws s = Some (Inr s')"
proof (induction "remaining_events (\<delta> / arrival_rate) simulation_time s"
    arbitrary: s rule: less_induct)
  case less
  show ?case
  proof (cases "current_time s < simulation_time")
    case False
    then show ?thesis by (subst event_loop.simps) simp
  next
    case True
    from assms(1,2) obtain s1 where s1: "loop_body arrival_rate service_rate draws s = Inr s1"
      using loop_body_succeeds by blast
    from less(2) s1 have inv1: "server_inv s1" by (rule loop_body_server_inv)
    from less(2) have count: "0 \<le> current_state s" by (simp add: server_inv_def)
    have unfold: "event_loop arrival_rate service_rate simulation_time draws s
        = event_loop arrival_rate service_rate simulation_time draws s1"
      using True s1 by (subst event_loop.simps) simp
    show ?thesis
    proof (cases "arrival_is_next s")
      case arr: True
      with s1 have a: "arrival arrival_rate service_rate draws s = Inr s1"
        by (simp add: loop_body_cases)
      show ?thesis
      proof (cases "next_arrival_time s < simulation_time")
        case True
        with assms(1,3,4) a count
        have "remaining_events (\<delta> / arrival_rate) simulation_time s1
            < remaining_events (\<delta> / arrival_rate) simulation_time s"
          by (simp add: arrival_decreases)
        from less(1) [OF this inv1] unfold show ?thesis by simp
      next
        case False
        with a have "\<not> current_time s1 < simulation_time" by (simp add: arrival_count)
        then have "event_loop arrival_rate service_rate simulation_time draws s1 = Some (Inr s1)"
          by (subst event_loop.simps) simp
        with unfold show ?thesis by simp
      qed
    next
      case dep: False
      then obtain d where d: "next_departure_time s = Finite d"
        by (auto simp: arrival_is_next_def split: etime.splits)
      with s1 dep have dd: "departure service_rate draws d s = Inr s1"
        by (simp add: loop_body_cases)
      from d less(2) have "0 < current_state s" by (auto simp: server_inv_def)
      with dd have "remaining_events (\<delta> / arrival_rate) simulation_time s1
          < remaining_events (\<delta> / arrival_rate) simulation_time s"
        by (rule departure_decreases)
      from less(1) [OF this inv1] unfold show ?thesis by simp
    qed
  qed
qed

lemma simulate_returns:
  assumes "0 < arrival_rate" and "0 < service_rate" and "simulation_time \<noteq> 0"
    and "0 < \<delta>"
    and "\<forall>i. \<delta> \<le> (case seed of Some k \<Rightarrow> seeded k | None \<Rightarrow> ambient) i"
  shows "\<exists>r. simulate_mm1_queue seeded ambient arrival_rate service_rate simulation_time seed
           = Some (Inr r)"
proof -
  let ?draws = "case seed of Some k \<Rightarrow> seeded k | None \<Rightarrow> ambient"
  from assms(1) obtain s0 where s0: "initial_state ?draws arrival_rate = Inr s0"
    by (auto simp: initial_state_def exponential_cases)
  then have "server_inv s0" by (rule initial_server_inv)
  with assms(1,2,4,5) obtain s where
    "event_loop arrival_rate service_rate simulation_time ?draws s0 = Some (Inr s)"
    using event_loop_returns by blast
  with s0 have "final_state ?draws arrival_rate service_rate simulation_time = Some (Inr s)"
    by (simp add: final_state_def)
  with assms(3) show ?thesis
    by (simp add: simulate_mm1_queue_def statistics_def Let_def)
qed

end
